theory Spec2Isabelle
  imports Complex_Main "HOL-Library.AList"
begin

section \<open>Strings\<close>

text \<open>
  A Python \<open>str\<close> is a sequence of Unicode code points. A code point is modelled as a
  natural number and a string as a list of them, so that the model counts what the
  source's string type counts. The literals of the source are ASCII and are written
  with \<open>lit\<close>.
\<close>

type_synonym pystr = "nat list"

definition lit :: "string \<Rightarrow> pystr" where
  "lit s = map of_char s"

text \<open>
  The white space of \<open>str.strip()\<close> and of the regular expression class \<open>\S\<close>:
  the code points for which \<open>str.isspace()\<close> holds.
\<close>

definition is_space :: "nat \<Rightarrow> bool" where
  "is_space c \<longleftrightarrow>
     (9 \<le> c \<and> c \<le> 13) \<or> (28 \<le> c \<and> c \<le> 32) \<or> c = 133 \<or> c = 160 \<or> c = 5760 \<or>
     (8192 \<le> c \<and> c \<le> 8202) \<or> c = 8232 \<or> c = 8233 \<or> c = 8239 \<or> c = 8287 \<or> c = 12288"

definition strip :: "pystr \<Rightarrow> pystr" where
  "strip s = rev (dropWhile is_space (rev (dropWhile is_space s)))"

section \<open>sanitize\_filename\<close>

text \<open>
  The character class \<^verbatim>\<open>[\\/*?:"<>|]\<close> of the source: backslash, slash, star,
  question mark, colon, double quote, less-than, greater-than and the vertical bar.
\<close>

definition unsafe_chars :: "nat list" where
  "unsafe_chars = [92, 47, 42, 63, 58, 34, 60, 62, 124]"

definition sanitize_filename :: "pystr \<Rightarrow> pystr" where
  "sanitize_filename text = strip (filter (\<lambda>c. c \<notin> set unsafe_chars) text)"

section \<open>More of Python's text operations\<close>

text \<open>\<open>starts_with s p\<close> is \<open>s.startswith(p)\<close>; \<open>contains s sub\<close> is \<open>sub in s\<close>.\<close>

fun starts_with :: "pystr \<Rightarrow> pystr \<Rightarrow> bool" where
  "starts_with s [] = True"
| "starts_with [] (p # ps) = False"
| "starts_with (c # cs) (p # ps) = (c = p \<and> starts_with cs ps)"

fun contains :: "pystr \<Rightarrow> pystr \<Rightarrow> bool" where
  "contains [] sub = (sub = [])"
| "contains (c # cs) sub = (starts_with (c # cs) sub \<or> contains cs sub)"

text \<open>\<open>str_split sep s\<close> is \<open>s.split(sep)\<close> for a separator of one character, and
  \<open>join sep xs\<close> is \<open>sep.join(xs)\<close>.\<close>

fun str_split :: "nat \<Rightarrow> pystr \<Rightarrow> pystr list" where
  "str_split sep [] = [[]]"
| "str_split sep (c # cs) =
     (if c = sep then [] # str_split sep cs
      else (case str_split sep cs of [] \<Rightarrow> [[c]] | w # ws \<Rightarrow> (c # w) # ws))"

fun join :: "pystr \<Rightarrow> pystr list \<Rightarrow> pystr" where
  "join sep [] = []"
| "join sep [x] = x"
| "join sep (x # y # ys) = x @ sep @ join sep (y # ys)"

text \<open>The decimal text of an integer, as \<open>str(i)\<close> and the f-strings produce it.\<close>

fun digits :: "nat \<Rightarrow> pystr" where
  "digits n = (if n < 10 then [48 + n] else digits (n div 10) @ [48 + n mod 10])"

declare digits.simps [simp del]

definition str_int :: "int \<Rightarrow> pystr" where
  "str_int i = (if i < 0 then 45 # digits (nat (- i)) else digits (nat i))"

text \<open>\<open>int(x)\<close> of a number with a fraction truncates toward zero.\<close>

definition py_int :: "rat \<Rightarrow> int" where
  "py_int q = (if q < 0 then \<lceil>q\<rceil> else \<lfloor>q\<rfloor>)"

section \<open>get\_platform\<close>

definition get_platform :: "pystr \<Rightarrow> pystr" where
  "get_platform url =
     (if contains url (lit ''instagram.com/reel'') then lit ''instagram''
      else if contains url (lit ''youtube.com'') \<or> contains url (lit ''youtu.be'') then lit ''youtube''
      else if contains url (lit ''reddit.com'') then lit ''reddit''
      else lit ''unknown'')"

section \<open>URL extraction\<close>

text \<open>
  \<open>re.findall(r'(https?://\S+)', content)\<close>. A match at the start of \<open>s\<close> is
  \<open>https://\<close> or \<open>http://\<close> followed by the longest non-empty run of characters that
  are not white space; \<open>match_url\<close> returns the match and what follows it. The search
  goes from left to right and resumes after each match.
\<close>

definition match_url :: "pystr \<Rightarrow> (pystr \<times> pystr) option" where
  "match_url s =
     (if starts_with s (lit ''https://'') \<and> takeWhile (\<lambda>c. \<not> is_space c) (drop 8 s) \<noteq> []
      then Some (take 8 s @ takeWhile (\<lambda>c. \<not> is_space c) (drop 8 s),
                 dropWhile (\<lambda>c. \<not> is_space c) (drop 8 s))
      else if starts_with s (lit ''http://'') \<and> takeWhile (\<lambda>c. \<not> is_space c) (drop 7 s) \<noteq> []
      then Some (take 7 s @ takeWhile (\<lambda>c. \<not> is_space c) (drop 7 s),
                 dropWhile (\<lambda>c. \<not> is_space c) (drop 7 s))
      else None)"

lemma match_url_shorter: "match_url s = Some (u, r) \<Longrightarrow> s \<noteq> [] \<Longrightarrow> length r < length s"
proof -
  assume m: "match_url s = Some (u, r)" and ne: "s \<noteq> []"
  have le: "length (dropWhile P (drop k s)) \<le> length s - k" for P k
    using length_dropWhile_le [of P "drop k s"] by simp
  from ne have "0 < length s" by simp
  then have "length s - 8 < length s" "length s - 7 < length s" by simp_all
  with m le [of "\<lambda>c. \<not> is_space c" 8] le [of "\<lambda>c. \<not> is_space c" 7]
  show ?thesis
    by (auto simp: match_url_def split: if_splits)
qed

function findall_urls :: "pystr \<Rightarrow> pystr list" where
  "findall_urls [] = []"
| "findall_urls (c # cs) =
     (case match_url (c # cs) of
        Some (u, r) \<Rightarrow> u # findall_urls r
      | None \<Rightarrow> findall_urls cs)"
  by pat_completeness auto
termination
proof (relation "measure length")
  show "wf (measure length)" by simp
next
  fix c cs x2 x y
  assume "match_url (c # cs) = Some x2" "(x, y) = x2"
  then have "match_url (c # cs) = Some (x, y)" by simp
  then have "length y < length (c # cs)" by (rule match_url_shorter) simp
  then show "(y, c # cs) \<in> measure length" by simp
next
  fix c cs
  show "(cs, c # cs) \<in> measure length" by simp
qed

section \<open>The world outside the program\<close>

text \<open>
  The file system is a map from a path to the size in bytes of the file there. Only the
  existence and the size of files are represented.
\<close>

type_synonym fs = "pystr \<rightharpoonup> nat"

datatype error = FileNotFoundError pystr | HTTPException int

datatype 'a outcome = Raises | Returns 'a

text \<open>
  What \<open>extract_info\<close> returns: the keys the program reads, \<open>None\<close> for a key that
  is absent.
\<close>

record info =
  info_title :: "pystr option"
  info_uploader :: "pystr option"
  info_channel :: "pystr option"
  info_subreddit :: "pystr option"

text \<open>Timestamps are microseconds, the resolution of \<open>datetime\<close>, as unbounded integers.\<close>

record message =
  msg_id :: int
  author :: int
  author_tag :: pystr
  content :: pystr
  created_at :: int

text \<open>
  A channel as the chat platform holds it: its messages in the order they were posted,
  and whether the bot may read its history (a read that is not permitted raises).
\<close>

record channel =
  messages :: "message list"
  readable :: bool

text \<open>
  The external collaborators are parameters of the model. Each field is the outcome of
  one external call as a function of the arguments the program passes:
  \<^item> \<open>get_channel\<close>: the client's channel lookup, \<open>None\<close> when the channel is not found;
  \<^item> \<open>default_limit\<close>: the number of messages a history query returns when the caller
    gives no limit (\<open>None\<close>: no bound);
  \<^item> \<open>now\<close>: the clock reading taken while the channel at that position is processed;
  \<^item> \<open>extract_info\<close>, \<open>download\<close>: the extraction library; \<open>download\<close> is given the
    output name, the URL and the file system and returns whether it completed without
    raising, and the file system it leaves;
  \<^item> \<open>open_clip\<close>: opening the clip raises or gives the clip's duration in seconds,
    \<open>None\<close> when the clip has none;
  \<^item> \<open>write_videofile\<close>: given the input path, the output path, the bitrate text, the
    two codec names and the file system, whether the encoding (and the closing of the
    clip after it) completed without raising, and the file system it leaves;
  \<^item> \<open>reply\<close>: whether replying to the message with the text and the file succeeds;
  \<^item> \<open>send\<close>: whether sending the text to the channel succeeds.
  Floating-point numbers are idealised as rationals.
\<close>

record world =
  client_user :: int
  get_channel :: "int \<Rightarrow> channel option"
  default_limit :: "nat option"
  now :: "nat \<Rightarrow> int"
  strftime :: "int \<Rightarrow> pystr"
  extract_info :: "pystr \<Rightarrow> info outcome"
  download :: "pystr \<Rightarrow> pystr \<Rightarrow> fs \<Rightarrow> bool \<times> fs"
  open_clip :: "pystr \<Rightarrow> fs \<Rightarrow> rat option outcome"
  write_videofile :: "pystr \<Rightarrow> pystr \<Rightarrow> pystr \<Rightarrow> pystr \<Rightarrow> pystr \<Rightarrow> fs \<Rightarrow> bool \<times> fs"
  reply :: "message \<Rightarrow> pystr \<Rightarrow> pystr \<Rightarrow> bool"
  send :: "int \<Rightarrow> pystr \<Rightarrow> bool"

text \<open>
  Modelled from the spec: the chat platform's message-history query, which is not part of
  the repository. It supports a result-count limit, a filter "after a timestamp" and the
  order "oldest first"; without the latter the newest message comes first.
\<close>

definition history :: "world \<Rightarrow> channel \<Rightarrow> nat option \<Rightarrow> int option \<Rightarrow> bool \<Rightarrow> message list outcome" where
  "history w ch limit after oldest_first =
     (if \<not> readable ch then Raises
      else
        let selected = (case after of None \<Rightarrow> messages ch
                        | Some t \<Rightarrow> filter (\<lambda>m. t < created_at m) (messages ch));
            ordered = (if oldest_first then selected else rev selected)
        in Returns (case (case limit of None \<Rightarrow> default_limit w | Some n \<Rightarrow> Some n) of
                      None \<Rightarrow> ordered
                    | Some n \<Rightarrow> take n ordered))"

section \<open>Configuration\<close>

record config =
  MAX_DISCORD_FILESIZE_MB :: rat
  CHANNEL_IDS :: "int list"
  LOG_CHANNEL_ID :: int
  LOOKBACK_DAYS :: int

text \<open>
  The constants of the source. The argument is the value of the environment variable
  \<open>LOOKBACK_DAYS\<close> read as an integer, \<open>None\<close> when the variable is not set.
\<close>

definition configuration :: "int option \<Rightarrow> config" where
  "configuration env =
     \<lparr> MAX_DISCORD_FILESIZE_MB = 8,
       CHANNEL_IDS = [911164219238514688, 911164241216667678,
                      1005713269094350938, 912017250909847623,
                      912017322993139752, 912017388042592286,
                      912017417142689872, 1218954199916871691],
       LOG_CHANNEL_ID = 1056057016235348039,
       LOOKBACK_DAYS = (case env of None \<Rightarrow> 3 | Some d \<Rightarrow> d) \<rparr>"

section \<open>download\_video\<close>

text \<open>\<open>a or b\<close> on optional strings: \<open>None\<close> and the empty string are false.\<close>

definition or_else :: "pystr option \<Rightarrow> pystr option \<Rightarrow> pystr option" where
  "or_else a b = (case a of None \<Rightarrow> b | Some x \<Rightarrow> if x = [] then b else Some x)"

text \<open>
  Every exception is caught and turned into the pair of empty strings. The function
  returns the pair and the file system the download left.
\<close>

definition download_video :: "world \<Rightarrow> pystr \<Rightarrow> fs \<Rightarrow> (pystr \<times> pystr) \<times> fs" where
  "download_video w url fs =
     (case extract_info w url of
        Raises \<Rightarrow> (([], []), fs)
      | Returns i \<Rightarrow>
          (case str_split 10 (case info_title i of None \<Rightarrow> lit ''untitled'' | Some t \<Rightarrow> t) of
             [] \<Rightarrow> (([], []), fs)
           | first_line # _ \<Rightarrow>
               let title = take 60 first_line;
                   uploader = (case or_else (info_uploader i) (or_else (info_channel i) (info_subreddit i)) of
                                 None \<Rightarrow> lit ''unknown''
                               | Some u \<Rightarrow> if u = [] then lit ''unknown'' else u);
                   filename = sanitize_filename (uploader @ lit '' '' @ title @ lit ''.mp4'')
               in (case download w filename url fs of
                     (True, fs') \<Rightarrow> ((filename, uploader), fs')
                   | (False, fs') \<Rightarrow> (([], []), fs'))))"

section \<open>compress\_video\<close>

text \<open>
  The size probe comes first and is outside the \<open>try\<close>: a missing file raises. Inside
  the \<open>try\<close>, opening the clip, a clip without duration, a duration of zero and the
  encoder can each raise; every such exception ends in the fallback.
\<close>

definition target_bitrate :: "rat \<Rightarrow> rat \<Rightarrow> rat" where
  "target_bitrate max_mb duration = (max_mb * 8192) / duration"

definition compress_video :: "world \<Rightarrow> pystr \<Rightarrow> rat \<Rightarrow> fs \<Rightarrow> error + (pystr \<times> fs)" where
  "compress_video w input_path max_mb fs =
     (case fs input_path of
        None \<Rightarrow> Inl (FileNotFoundError input_path)
      | Some size_bytes \<Rightarrow>
          if of_nat size_bytes / (1024 * 1024) \<le> max_mb then Inr (input_path, fs)
          else
            let output_path = lit ''compressed_'' @ input_path in
            (case open_clip w input_path fs of
               Raises \<Rightarrow> Inr (input_path, fs)
             | Returns None \<Rightarrow> Inr (input_path, fs)
             | Returns (Some duration) \<Rightarrow>
                 if duration = 0 then Inr (input_path, fs)
                 else
                   (case write_videofile w input_path output_path
                           (str_int (py_int (target_bitrate max_mb duration)) @ lit ''k'')
                           (lit ''libx264'') (lit ''aac'') fs of
                      (True, fs') \<Rightarrow> Inr (output_path, fs')
                    | (False, fs') \<Rightarrow> Inr (input_path, fs'))))"

section \<open>on\_ready\<close>

text \<open>
  The state of a run: the file system, the dictionary \<open>processed_counts\<close> (an association
  list in insertion order, as a Python dictionary keeps it) and the log of what the run
  did to the outside: channels not found, replies and failed replies, the end of a
  channel, pauses, the summary, and the closing of the client.
\<close>

datatype event =
    ChannelNotFound int
  | Replied int pystr pystr
  | ReplyFailed int
  | ProcessingComplete int
  | Sleep nat
  | SummarySent int pystr
  | SummaryFailed int pystr
  | LogChannelNotFound int
  | Closed

record state =
  files :: fs
  processed_counts :: "(int \<times> int) list"
  trace :: "event list"

text \<open>Lines 133 and 134: the size probe, and the compression of a file above the ceiling.\<close>

definition sized_video_path :: "config \<Rightarrow> world \<Rightarrow> pystr \<Rightarrow> fs \<Rightarrow> error + (pystr \<times> fs)" where
  "sized_video_path cfg w video_file fs =
     (case fs video_file of
        None \<Rightarrow> Inl (FileNotFoundError video_file)
      | Some size_bytes \<Rightarrow>
          if of_nat size_bytes / (1024 * 1024) > MAX_DISCORD_FILESIZE_MB cfg
          then compress_video w video_file (MAX_DISCORD_FILESIZE_MB cfg) fs
          else Inr (video_file, fs))"

text \<open>
  Lines 141 to 146: the reply, and the increment after it, inside one \<open>try\<close>. Building
  the attachment raises when the file is missing, and a key missing from the dictionary
  would raise after the reply was sent; both are caught there.
\<close>

definition reply_step :: "world \<Rightarrow> int \<Rightarrow> message \<Rightarrow> pystr \<Rightarrow> state \<Rightarrow> state" where
  "reply_step w channel_id msg video_path s =
     (let text = lit ''sent on '' @ strftime w (created_at msg) @ lit '' by '' @ author_tag msg in
      if files s video_path = None \<or> \<not> reply w msg text video_path
      then s\<lparr>trace := trace s @ [ReplyFailed (msg_id msg)]\<rparr>
      else
        (case map_of (processed_counts s) channel_id of
           None \<Rightarrow> s\<lparr>trace := trace s @ [Replied (msg_id msg) text video_path, ReplyFailed (msg_id msg)]\<rparr>
         | Some n \<Rightarrow>
             s\<lparr>processed_counts := AList.update channel_id (n + 1) (processed_counts s),
               trace := trace s @ [Replied (msg_id msg) text video_path]\<rparr>))"

text \<open>Lines 148 to 152: the removal of the two files.\<close>

definition clean_up :: "pystr \<Rightarrow> pystr \<Rightarrow> fs \<Rightarrow> fs" where
  "clean_up video_file video_path fs =
     (let fs1 = (if fs video_file \<noteq> None then fs(video_file := None) else fs)
      in if video_path \<noteq> video_file \<and> fs1 video_path \<noteq> None then fs1(video_path := None) else fs1)"

text \<open>The body of the loop over the URLs of one message.\<close>

definition process_url :: "config \<Rightarrow> world \<Rightarrow> int \<Rightarrow> message \<Rightarrow> pystr \<Rightarrow> state \<Rightarrow> error + state" where
  "process_url cfg w channel_id msg url s =
     (if get_platform url \<noteq> lit ''unknown'' then
        (case download_video w url (files s) of
           ((video_file, uploader), fs1) \<Rightarrow>
             if video_file \<noteq> [] then
               (case sized_video_path cfg w video_file fs1 of
                  Inl e \<Rightarrow> Inl e
                | Inr (video_path, fs2) \<Rightarrow>
                    let s1 = reply_step w channel_id msg video_path (s\<lparr>files := fs2\<rparr>)
                    in Inr (s1\<lparr>files := clean_up video_file video_path (files s1)\<rparr>))
             else Inr (s\<lparr>files := fs1\<rparr>))
      else Inr s)"

fun process_urls :: "config \<Rightarrow> world \<Rightarrow> int \<Rightarrow> message \<Rightarrow> pystr list \<Rightarrow> state \<Rightarrow> error + state" where
  "process_urls cfg w channel_id msg [] s = Inr s"
| "process_urls cfg w channel_id msg (url # urls) s =
     (case process_url cfg w channel_id msg url s of
        Inl e \<Rightarrow> Inl e
      | Inr s1 \<Rightarrow> process_urls cfg w channel_id msg urls s1)"

definition process_message :: "config \<Rightarrow> world \<Rightarrow> int \<Rightarrow> message \<Rightarrow> state \<Rightarrow> error + state" where
  "process_message cfg w channel_id msg s =
     process_urls cfg w channel_id msg (findall_urls (content msg)) s"

fun process_messages :: "config \<Rightarrow> world \<Rightarrow> int \<Rightarrow> message list \<Rightarrow> state \<Rightarrow> error + state" where
  "process_messages cfg w channel_id [] s = Inr s"
| "process_messages cfg w channel_id (msg # msgs) s =
     (case process_message cfg w channel_id msg s of
        Inl e \<Rightarrow> Inl e
      | Inr s1 \<Rightarrow> process_messages cfg w channel_id msgs s1)"

text \<open>
  Lines 109 to 119: the resume cursor, from the messages the scan of the last 500
  returned. One second is 1000000 microseconds, one day 86400000000.
\<close>

definition resume_cursor :: "config \<Rightarrow> world \<Rightarrow> nat \<Rightarrow> message list \<Rightarrow> int" where
  "resume_cursor cfg w idx recent =
     (case find (\<lambda>m. author m = client_user w) recent of
        Some last_bot_msg \<Rightarrow> created_at last_bot_msg + 1000000
      | None \<Rightarrow> now w idx - LOOKBACK_DAYS cfg * 86400000000)"

text \<open>Lines 154 to 159: the end of a channel, and the pause unless it is the last one.\<close>

definition finish_channel :: "config \<Rightarrow> nat \<Rightarrow> int \<Rightarrow> state \<Rightarrow> state" where
  "finish_channel cfg idx channel_id s1 =
     (let s2 = s1\<lparr>trace := trace s1 @ [ProcessingComplete channel_id]\<rparr>
      in if int idx < int (length (CHANNEL_IDS cfg)) - 1
         then s2\<lparr>trace := trace s2 @ [Sleep 60]\<rparr>
         else s2)"

text \<open>The body of the loop over the channels.\<close>

definition process_channel :: "config \<Rightarrow> world \<Rightarrow> nat \<Rightarrow> int \<Rightarrow> state \<Rightarrow> error + state" where
  "process_channel cfg w idx channel_id s =
     (case get_channel w channel_id of
        None \<Rightarrow> Inr (s\<lparr>trace := trace s @ [ChannelNotFound channel_id]\<rparr>)
      | Some ch \<Rightarrow>
          (case history w ch (Some 500) None False of
             Raises \<Rightarrow> Inl (HTTPException channel_id)
           | Returns recent \<Rightarrow>
               (case history w ch None (Some (resume_cursor cfg w idx recent)) True of
                  Raises \<Rightarrow> Inl (HTTPException channel_id)
                | Returns new_messages \<Rightarrow>
                    (case process_messages cfg w channel_id new_messages s of
                       Inl e \<Rightarrow> Inl e
                     | Inr s1 \<Rightarrow> Inr (finish_channel cfg idx channel_id s1)))))"

fun walk_channels :: "config \<Rightarrow> world \<Rightarrow> (nat \<times> int) list \<Rightarrow> state \<Rightarrow> error + state" where
  "walk_channels cfg w [] s = Inr s"
| "walk_channels cfg w ((idx, channel_id) # rest) s =
     (case process_channel cfg w idx channel_id s of
        Inl e \<Rightarrow> Inl e
      | Inr s1 \<Rightarrow> walk_channels cfg w rest s1)"

text \<open>Lines 161 to 173: the summary and the closing of the client.\<close>

definition summary_line :: "int \<times> int \<Rightarrow> pystr" where
  "summary_line p =
     (case p of (channel_id, count) \<Rightarrow>
        lit ''total '' @ str_int count @ lit '' msg converted in <#'' @ str_int channel_id @ lit ''>'')"

definition summary_text :: "(int \<times> int) list \<Rightarrow> pystr" where
  "summary_text counts = join [10] (map summary_line counts)"

definition send_summary :: "config \<Rightarrow> world \<Rightarrow> state \<Rightarrow> state" where
  "send_summary cfg w s =
     (case get_channel w (LOG_CHANNEL_ID cfg) of
        None \<Rightarrow> s\<lparr>trace := trace s @ [LogChannelNotFound (LOG_CHANNEL_ID cfg), Closed]\<rparr>
      | Some log_channel \<Rightarrow>
          let summary = summary_text (processed_counts s);
              text = (if summary \<noteq> [] then summary else lit ''No messages processed.'')
          in if send w (LOG_CHANNEL_ID cfg) text
             then s\<lparr>trace := trace s @ [SummarySent (LOG_CHANNEL_ID cfg) text, Closed]\<rparr>
             else s\<lparr>trace := trace s @ [SummaryFailed (LOG_CHANNEL_ID cfg) text, Closed]\<rparr>)"

text \<open>Line 98: the dictionary comprehension.\<close>

definition initial_counts :: "int list \<Rightarrow> (int \<times> int) list" where
  "initial_counts ids = fold (\<lambda>channel_id d. AList.update channel_id 0 d) ids []"

definition on_ready :: "config \<Rightarrow> world \<Rightarrow> fs \<Rightarrow> error + state" where
  "on_ready cfg w fs0 =
     (case walk_channels cfg w (enumerate 0 (CHANNEL_IDS cfg))
             \<lparr>files = fs0, processed_counts = initial_counts (CHANNEL_IDS cfg), trace = []\<rparr> of
        Inl e \<Rightarrow> Inl e
      | Inr s \<Rightarrow> Inr (send_summary cfg w s))"

section \<open>Views of the log\<close>

text \<open>
  Three kinds of events: those of a reply, those that pace the walk over the channels
  (a channel not found, the end of a channel, a pause), and those of the summary step.
\<close>

fun is_reply :: "event \<Rightarrow> bool" where
  "is_reply (Replied m t p) = True"
| "is_reply (ReplyFailed m) = True"
| "is_reply e = False"

fun is_pacing :: "event \<Rightarrow> bool" where
  "is_pacing (ChannelNotFound c) = True"
| "is_pacing (ProcessingComplete c) = True"
| "is_pacing (Sleep n) = True"
| "is_pacing e = False"

fun is_summary :: "event \<Rightarrow> bool" where
  "is_summary (SummarySent c t) = True"
| "is_summary (SummaryFailed c t) = True"
| "is_summary (LogChannelNotFound c) = True"
| "is_summary e = False"

text \<open>
  The pacing events one channel contributes: nothing but the notice for a channel that
  is not found; the end of the channel, and the pause unless the channel is the last in
  the configured order, for a channel that is found.
\<close>

abbreviation pacing_of :: "config \<Rightarrow> world \<Rightarrow> nat \<times> int \<Rightarrow> event list" where
  "pacing_of cfg w \<equiv> \<lambda>(idx, channel_id).
     (case get_channel w channel_id of
        None \<Rightarrow> [ChannelNotFound channel_id]
      | Some ch \<Rightarrow> ProcessingComplete channel_id #
          (if int idx < int (length (CHANNEL_IDS cfg)) - 1 then [Sleep 60] else []))"

section \<open>Worlds for the examples\<close>

text \<open>
  A world in which nothing outside the program works: no channel is found, every
  external call raises. The examples change the fields they need.
\<close>

definition silent_world :: world where
  "silent_world =
     \<lparr> client_user = 1, get_channel = (\<lambda>c. None), default_limit = Some 100,
       now = (\<lambda>i. 0), strftime = (\<lambda>t. lit ''01-Jan-26''),
       extract_info = (\<lambda>u. Raises), download = (\<lambda>out u fs. (False, fs)),
       open_clip = (\<lambda>p fs. Raises), write_videofile = (\<lambda>i out b c a fs. (False, fs)),
       reply = (\<lambda>m t p. False), send = (\<lambda>c t. False) \<rparr>"


text \<open>A world whose encoder raises after it has written 1000 bytes of output.\<close>

definition broken_encoder_world :: world where
  "broken_encoder_world =
     silent_world\<lparr> open_clip := (\<lambda>p fs. Returns (Some 8)),
                   write_videofile := (\<lambda>i out b c a fs. (False, fs(out \<mapsto> 1000))) \<rparr>"

text \<open>
  A channel with four messages: the bot (user 1) posted the second one at 2000000; the
  others are by user 2.
\<close>

definition example_message :: "int \<Rightarrow> int \<Rightarrow> int \<Rightarrow> pystr \<Rightarrow> message" where
  "example_message i a t c = \<lparr> msg_id = i, author = a, author_tag = lit ''user'', content = c, created_at = t \<rparr>"



text \<open>A world in which every channel is found, readable and empty.\<close>

definition open_world :: world where
  "open_world = silent_world\<lparr> get_channel := (\<lambda>c. Some \<lparr>messages = [], readable = True\<rparr>) \<rparr>"

text \<open>The same, but the first configured channel is not found.\<close>

definition first_missing_world :: world where
  "first_missing_world =
     silent_world\<lparr> get_channel := (\<lambda>c. if c = 911164219238514688 then None
                                       else Some \<lparr>messages = [], readable = True\<rparr>) \<rparr>"

text \<open>The same as the world of empty channels, with a log channel that accepts the summary.\<close>

definition announcing_world :: world where
  "announcing_world = open_world\<lparr> send := (\<lambda>c t. True) \<rparr>"

text \<open>
  A world in which the extraction library works: every URL has the uploader \<open>u\<close> and the
  title \<open>t\<close>, the download writes a file of the given size under the output name, the
  encoder works and replies succeed. In \<open>leaky_world\<close> the file has 9000000 bytes and the
  encoder raises after it has written 1000 bytes of output.
\<close>

definition video_world :: "nat \<Rightarrow> world" where
  "video_world size_bytes =
     silent_world\<lparr> extract_info := (\<lambda>u. Returns \<lparr>info_title = Some (lit ''t''), info_uploader = Some (lit ''u''),
                                                info_channel = None, info_subreddit = None\<rparr>),
                   download := (\<lambda>out u fs. (True, fs(out \<mapsto> size_bytes))),
                   open_clip := (\<lambda>p fs. Returns (Some 8)),
                   write_videofile := (\<lambda>i out b c a fs. (True, fs(out \<mapsto> 8000000))),
                   reply := (\<lambda>m t p. True) \<rparr>"

definition leaky_world :: world where
  "leaky_world = (video_world 9000000)\<lparr> write_videofile := (\<lambda>i out b c a fs. (False, fs(out \<mapsto> 1000))) \<rparr>"

text \<open>The state in which the walk over the channels starts, on an empty disk.\<close>

definition start_state :: state where
  "start_state = \<lparr>files = Map.empty, processed_counts = initial_counts (CHANNEL_IDS (configuration None)), trace = []\<rparr>"

text \<open>
  A world for whole runs: the first configured channel holds one message by user 2 with
  two YouTube links, the log channel is found and accepts the summary, no other channel
  is found. In \<open>unreadable_world\<close> every channel is found but its history cannot be
  read; in \<open>vanishing_world\<close> the download reports success and leaves no file.
\<close>

definition busy_channel :: channel where
  "busy_channel =
     \<lparr> messages = [example_message 10 2 0 (lit ''https://youtu.be/a https://youtu.be/b'')],
       readable = True \<rparr>"

definition busy_world :: world where
  "busy_world =
     (video_world 1000)\<lparr> get_channel := (\<lambda>c. if c = 911164219238514688 then Some busy_channel
                                             else if c = 1056057016235348039 then Some \<lparr>messages = [], readable = True\<rparr>
                                             else None),
                          send := (\<lambda>c t. True) \<rparr>"



section \<open>Properties of the string functions\<close>

lemma strip_no_leading_space: "strip s \<noteq> [] \<Longrightarrow> \<not> is_space (hd (strip s))"
proof -
  assume ne: "strip s \<noteq> []"
  let ?d = "dropWhile is_space s"
  let ?r = "dropWhile is_space (rev ?d)"
  from ne have r_ne: "?r \<noteq> []" by (simp add: strip_def)
  have d_ne: "?d \<noteq> []"
  proof
    assume "?d = []"
    then have "?r = []" by (simp only: rev.simps dropWhile.simps)
    with r_ne show False by contradiction
  qed
  then have hd_d: "\<not> is_space (hd ?d)" by (rule hd_dropWhile)
  obtain pre where pre: "rev ?d = pre @ ?r"
    by (metis takeWhile_dropWhile_id)
  then have "?d = rev ?r @ rev pre" by (metis rev_append rev_rev_ident)
  with r_ne have "hd ?d = hd (rev ?r)" by (metis hd_append2 rev_is_Nil_conv)
  with hd_d show ?thesis by (simp add: strip_def)
qed

lemma strip_no_trailing_space: "strip s \<noteq> [] \<Longrightarrow> \<not> is_space (last (strip s))"
proof -
  assume ne: "strip s \<noteq> []"
  let ?r = "dropWhile is_space (rev (dropWhile is_space s))"
  from ne have r_ne: "?r \<noteq> []" by (simp add: strip_def)
  then have "\<not> is_space (hd ?r)" by (rule hd_dropWhile)
  with r_ne show ?thesis by (simp add: strip_def last_rev)
qed

lemma dropWhile_id_if: "xs = [] \<or> \<not> P (hd xs) \<Longrightarrow> dropWhile P xs = xs"
  by (cases xs) auto

lemma strip_fixed:
  assumes "s = [] \<or> (\<not> is_space (hd s) \<and> \<not> is_space (last s))"
  shows "strip s = s"
proof (cases "s = []")
  case True
  then show ?thesis by (simp add: strip_def)
next
  case False
  with assms have h: "\<not> is_space (hd s)" and l: "\<not> is_space (last s)" by auto
  from False h have 1: "dropWhile is_space s = s" by (simp add: dropWhile_id_if)
  from False l have "\<not> is_space (hd (rev s))" by (simp add: hd_rev)
  then have 2: "dropWhile is_space (rev s) = rev s" by (simp add: dropWhile_id_if)
  show ?thesis by (simp add: strip_def 1 2)
qed

lemma strip_idem: "strip (strip s) = strip s"
  by (rule strip_fixed) (use strip_no_leading_space strip_no_trailing_space in blast)

lemma set_strip_subset: "set (strip s) \<subseteq> set s"
proof
  fix c assume "c \<in> set (strip s)"
  then have "c \<in> set (dropWhile is_space (rev (dropWhile is_space s)))"
    by (simp add: strip_def)
  then have "c \<in> set (rev (dropWhile is_space s))" by (rule set_dropWhileD)
  then have "c \<in> set (dropWhile is_space s)" by simp
  then show "c \<in> set s" by (rule set_dropWhileD)
qed

lemma strip_decompose:
  "\<exists>pre suf. s = pre @ strip s @ suf \<and> (\<forall>c \<in> set pre. is_space c) \<and> (\<forall>c \<in> set suf. is_space c)"
proof -
  let ?pre = "takeWhile is_space s"
  let ?d = "dropWhile is_space s"
  let ?suf = "rev (takeWhile is_space (rev ?d))"
  have "rev ?d = takeWhile is_space (rev ?d) @ dropWhile is_space (rev ?d)" by simp
  then have "?d = rev (dropWhile is_space (rev ?d)) @ ?suf"
    by (metis rev_append rev_rev_ident)
  then have d: "?d = strip s @ ?suf" by (simp add: strip_def)
  have "s = ?pre @ ?d" by simp
  with d have "s = ?pre @ strip s @ ?suf" by simp
  moreover have "\<forall>c \<in> set ?pre. is_space c" by (auto dest: set_takeWhileD)
  moreover have "\<forall>c \<in> set ?suf. is_space c" by (auto dest: set_takeWhileD)
  ultimately show ?thesis by blast
qed

lemma filter_safe_fixed:
  "\<forall>c \<in> set s. c \<notin> set unsafe_chars \<Longrightarrow> filter (\<lambda>c. c \<notin> set unsafe_chars) s = s"
  by (induction s) auto

text \<open>
  Claim C8. For every input string, \<open>sanitize_filename\<close> removes every occurrence of
  the nine characters \<^verbatim>\<open>\ / * ? : " < > |\<close> and trims leading and trailing white
  space: the result contains none of the nine characters, neither starts nor ends with
  white space, and is the input without the nine characters up to a prefix and a suffix
  of white space. It is idempotent: sanitizing a sanitized string returns it unchanged.
\<close>

theorem sanitize_filename_removes_trims_idempotent:
  "(\<forall>c \<in> set (sanitize_filename t). c \<notin> set unsafe_chars) \<and>
   (sanitize_filename t \<noteq> [] \<longrightarrow>
      \<not> is_space (hd (sanitize_filename t)) \<and> \<not> is_space (last (sanitize_filename t))) \<and>
   (\<exists>pre suf. filter (\<lambda>c. c \<notin> set unsafe_chars) t = pre @ sanitize_filename t @ suf \<and>
      (\<forall>c \<in> set pre. is_space c) \<and> (\<forall>c \<in> set suf. is_space c)) \<and>
   sanitize_filename (sanitize_filename t) = sanitize_filename t"
proof -
  let ?f = "filter (\<lambda>c. c \<notin> set unsafe_chars) t"
  have safe: "\<forall>c \<in> set (sanitize_filename t). c \<notin> set unsafe_chars"
  proof
    fix c assume "c \<in> set (sanitize_filename t)"
    then have "c \<in> set ?f" using set_strip_subset [of ?f] by (auto simp: sanitize_filename_def)
    then show "c \<notin> set unsafe_chars" by simp
  qed
  have ends: "sanitize_filename t \<noteq> [] \<longrightarrow>
      \<not> is_space (hd (sanitize_filename t)) \<and> \<not> is_space (last (sanitize_filename t))"
    unfolding sanitize_filename_def
    using strip_no_leading_space strip_no_trailing_space by blast
  have dec: "\<exists>pre suf. ?f = pre @ sanitize_filename t @ suf \<and>
      (\<forall>c \<in> set pre. is_space c) \<and> (\<forall>c \<in> set suf. is_space c)"
    unfolding sanitize_filename_def by (rule strip_decompose)
  have "filter (\<lambda>c. c \<notin> set unsafe_chars) (sanitize_filename t) = sanitize_filename t"
    using safe by (rule filter_safe_fixed)
  then have "sanitize_filename (sanitize_filename t) = strip (sanitize_filename t)"
    by (simp add: sanitize_filename_def)
  also have "\<dots> = sanitize_filename t"
    by (simp add: sanitize_filename_def strip_idem)
  finally have idem: "sanitize_filename (sanitize_filename t) = sanitize_filename t" .
  from safe ends dec idem show ?thesis by blast
qed

theorem sanitize_filename_removes_trims_idempotent_witness:
  "sanitize_filename (lit '' a/b:c? '') = lit ''abc'' \<and>
   sanitize_filename (sanitize_filename (lit '' a/b:c? '')) = lit ''abc''"
proof -
  have v: "sanitize_filename (lit '' a/b:c? '') = lit ''abc''"
    by (simp add: sanitize_filename_def strip_def lit_def unsafe_chars_def is_space_def)
  from sanitize_filename_removes_trims_idempotent [of "lit '' a/b:c? ''"] v
  show ?thesis by simp
qed

section \<open>Properties of compress\_video\<close>



text \<open>
  Claim C7. For every input path whose size exceeds the maximum, if the re-encoding fails
  for any reason (opening the clip raises, the clip has no duration or a duration of
  zero, or the encoder raises), \<open>compress_video\<close> returns the original input path and
  propagates no error.
\<close>

theorem compress_video_fallback:
  assumes "fs input_path = Some size_bytes"
    and "of_nat size_bytes / (1024 * 1024) > max_mb"
    and "\<not> (\<exists>duration. open_clip w input_path fs = Returns (Some duration) \<and> duration \<noteq> 0 \<and>
            fst (write_videofile w input_path (lit ''compressed_'' @ input_path)
              (str_int (py_int ((max_mb * 8192) / duration)) @ lit ''k'')
              (lit ''libx264'') (lit ''aac'') fs))"
  shows "\<exists>fs'. compress_video w input_path max_mb fs = Inr (input_path, fs')"
  using assms
  by (auto simp: compress_video_def target_bitrate_def Let_def
           split: outcome.splits option.splits prod.splits bool.splits)

theorem compress_video_fallback_witness:
  "\<exists>fs'. compress_video broken_encoder_world (lit ''a.mp4'') 8 [lit ''a.mp4'' \<mapsto> 8388609] =
     Inr (lit ''a.mp4'', fs')"
proof -
  have big: "[lit ''a.mp4'' \<mapsto> 8388609] (lit ''a.mp4'') = Some (8388609::nat)" by simp
  have over: "of_nat (8388609::nat) / (1024 * 1024) > (8::rat)" by simp
  have fails: "\<not> (\<exists>duration. open_clip broken_encoder_world (lit ''a.mp4'') [lit ''a.mp4'' \<mapsto> 8388609]
                   = Returns (Some duration) \<and> duration \<noteq> 0 \<and>
            fst (write_videofile broken_encoder_world (lit ''a.mp4'') (lit ''compressed_'' @ lit ''a.mp4'')
              (str_int (py_int ((8 * 8192) / duration)) @ lit ''k'')
              (lit ''libx264'') (lit ''aac'') [lit ''a.mp4'' \<mapsto> 8388609]))"
    by (simp add: broken_encoder_world_def silent_world_def)
  from big over fails
    compress_video_fallback [where fs = "[lit ''a.mp4'' \<mapsto> 8388609]" and input_path = "lit ''a.mp4''"
      and size_bytes = 8388609 and max_mb = 8 and w = broken_encoder_world]
  show ?thesis by blast
qed

text \<open>
  Claim C10. \<open>compress_video\<close> returns a path without raising only when the input path
  names an existing file: the size probe runs before the exception handler, so on a path
  that does not exist the call raises instead of returning the fallback, and on an
  existing file it always returns.
\<close>

theorem compress_video_total_iff_file_exists:
  "(fs input_path = None \<longrightarrow>
      compress_video w input_path max_mb fs = Inl (FileNotFoundError input_path)) \<and>
   (fs input_path \<noteq> None \<longrightarrow> (\<exists>r. compress_video w input_path max_mb fs = Inr r))"
  by (auto simp: compress_video_def Let_def
           split: outcome.splits option.splits prod.splits bool.splits)

theorem compress_video_total_iff_file_exists_witness:
  "compress_video silent_world (lit ''a.mp4'') 8 Map.empty = Inl (FileNotFoundError (lit ''a.mp4'')) \<and>
   (\<exists>r. compress_video silent_world (lit ''a.mp4'') 8 [lit ''a.mp4'' \<mapsto> 8388609] = Inr r)"
  using compress_video_total_iff_file_exists [of Map.empty "lit ''a.mp4''" silent_world 8]
        compress_video_total_iff_file_exists [of "[lit ''a.mp4'' \<mapsto> 8388609]" "lit ''a.mp4''" silent_world 8]
  by simp

section \<open>The resume cursor\<close>







section \<open>Properties of the run\<close>

subsection \<open>What one reply changes\<close>

lemma reply_step_files: "files (reply_step w c msg p s) = files s"
  by (simp add: reply_step_def Let_def split: option.splits)

lemma reply_step_keys:
  "map fst (processed_counts (reply_step w c msg p s)) = map fst (processed_counts s)"
proof (cases "map_of (processed_counts s) c")
  case None
  then show ?thesis by (simp add: reply_step_def Let_def)
next
  case (Some n)
  then have "c \<in> fst ` set (processed_counts s)"
    by (metis map_of_eq_None_iff option.distinct(1))
  then have "map fst (AList.update c (n + 1) (processed_counts s)) = map fst (processed_counts s)"
    by (simp add: update_keys)
  with Some show ?thesis by (simp add: reply_step_def Let_def)
qed

lemma reply_step_trace:
  "\<exists>evs. trace (reply_step w c msg p s) = trace s @ evs \<and> list_all is_reply evs"
  by (simp add: reply_step_def Let_def split: option.splits)

subsection \<open>What the loops keep\<close>

lemma process_url_keys:
  "process_url cfg w c msg url s = Inr s' \<Longrightarrow>
   map fst (processed_counts s') = map fst (processed_counts s)"
  by (auto simp: process_url_def Let_def reply_step_keys split: if_splits prod.splits sum.splits)

lemma process_url_trace:
  "process_url cfg w c msg url s = Inr s' \<Longrightarrow>
   \<exists>evs. trace s' = trace s @ evs \<and> list_all is_reply evs"
proof -
  assume a: "process_url cfg w c msg url s = Inr s'"
  have r: "\<exists>evs. trace (reply_step w c msg p (s\<lparr>files := f\<rparr>)) = trace s @ evs \<and> list_all is_reply evs" for p f
    using reply_step_trace [of w c msg p "s\<lparr>files := f\<rparr>"] by simp
  from a show ?thesis
    by (auto simp: process_url_def Let_def r split: if_splits prod.splits sum.splits)
qed

lemma process_urls_keys:
  "process_urls cfg w c msg urls s = Inr s' \<Longrightarrow>
   map fst (processed_counts s') = map fst (processed_counts s)"
proof (induction urls arbitrary: s)
  case Nil
  then show ?case by simp
next
  case (Cons url urls)
  then obtain s1 where 1: "process_url cfg w c msg url s = Inr s1"
    and 2: "process_urls cfg w c msg urls s1 = Inr s'"
    by (auto split: sum.splits)
  from Cons.IH [OF 2] process_url_keys [OF 1] show ?case by simp
qed

lemma process_urls_trace:
  "process_urls cfg w c msg urls s = Inr s' \<Longrightarrow>
   \<exists>evs. trace s' = trace s @ evs \<and> list_all is_reply evs"
proof (induction urls arbitrary: s)
  case Nil
  then show ?case by simp
next
  case (Cons url urls)
  then obtain s1 where 1: "process_url cfg w c msg url s = Inr s1"
    and 2: "process_urls cfg w c msg urls s1 = Inr s'"
    by (auto split: sum.splits)
  from process_url_trace [OF 1] obtain e1 where e1: "trace s1 = trace s @ e1" "list_all is_reply e1"
    by blast
  from Cons.IH [OF 2] obtain e2 where e2: "trace s' = trace s1 @ e2" "list_all is_reply e2"
    by blast
  from e1 e2 have "trace s' = trace s @ (e1 @ e2) \<and> list_all is_reply (e1 @ e2)" by simp
  then show ?case by blast
qed

lemma process_messages_keys:
  "process_messages cfg w c msgs s = Inr s' \<Longrightarrow>
   map fst (processed_counts s') = map fst (processed_counts s)"
proof (induction msgs arbitrary: s)
  case Nil
  then show ?case by simp
next
  case (Cons msg msgs)
  then obtain s1 where 1: "process_message cfg w c msg s = Inr s1"
    and 2: "process_messages cfg w c msgs s1 = Inr s'"
    by (auto split: sum.splits)
  from 1 have "map fst (processed_counts s1) = map fst (processed_counts s)"
    unfolding process_message_def by (rule process_urls_keys)
  with Cons.IH [OF 2] show ?case by simp
qed

lemma process_messages_trace:
  "process_messages cfg w c msgs s = Inr s' \<Longrightarrow>
   \<exists>evs. trace s' = trace s @ evs \<and> list_all is_reply evs"
proof (induction msgs arbitrary: s)
  case Nil
  then show ?case by simp
next
  case (Cons msg msgs)
  then obtain s1 where 1: "process_message cfg w c msg s = Inr s1"
    and 2: "process_messages cfg w c msgs s1 = Inr s'"
    by (auto split: sum.splits)
  from 1 obtain e1 where e1: "trace s1 = trace s @ e1" "list_all is_reply e1"
    unfolding process_message_def using process_urls_trace by blast
  from Cons.IH [OF 2] obtain e2 where e2: "trace s' = trace s1 @ e2" "list_all is_reply e2"
    by blast
  from e1 e2 have "trace s' = trace s @ (e1 @ e2) \<and> list_all is_reply (e1 @ e2)" by simp
  then show ?case by blast
qed

lemma reply_events_not_pacing: "list_all is_reply evs \<Longrightarrow> filter is_pacing evs = []"
proof (induction evs)
  case Nil
  then show ?case by simp
next
  case (Cons e evs)
  then show ?case by (cases e) simp_all
qed

lemma reply_events_not_summary: "list_all is_reply evs \<Longrightarrow> filter is_summary evs = []"
proof (induction evs)
  case Nil
  then show ?case by simp
next
  case (Cons e evs)
  then show ?case by (cases e) simp_all
qed

lemma process_channel_keys:
  "process_channel cfg w idx c s = Inr s' \<Longrightarrow>
   map fst (processed_counts s') = map fst (processed_counts s)"
  by (auto simp: process_channel_def finish_channel_def Let_def
           split: option.splits outcome.splits sum.splits dest: process_messages_keys)

lemma process_channel_pacing:
  assumes "process_channel cfg w idx c s = Inr s'"
  shows "filter is_pacing (trace s') = filter is_pacing (trace s) @ pacing_of cfg w (idx, c)"
proof (cases "get_channel w c")
  case None
  with assms show ?thesis by (auto simp: process_channel_def)
next
  case (Some ch)
  with assms obtain msgs s1 where 1: "process_messages cfg w c msgs s = Inr s1"
    and 2: "s' = finish_channel cfg idx c s1"
    by (auto simp: process_channel_def split: outcome.splits sum.splits)
  from process_messages_trace [OF 1] obtain evs where "trace s1 = trace s @ evs" "list_all is_reply evs"
    by blast
  then have "filter is_pacing (trace s1) = filter is_pacing (trace s)"
    by (simp add: reply_events_not_pacing)
  with 2 Some show ?thesis by (simp add: finish_channel_def Let_def)
qed

lemma process_channel_summary:
  assumes "process_channel cfg w idx c s = Inr s'"
  shows "filter is_summary (trace s') = filter is_summary (trace s)"
proof (cases "get_channel w c")
  case None
  with assms show ?thesis by (auto simp: process_channel_def)
next
  case (Some ch)
  with assms obtain msgs s1 where 1: "process_messages cfg w c msgs s = Inr s1"
    and 2: "s' = finish_channel cfg idx c s1"
    by (auto simp: process_channel_def split: outcome.splits sum.splits)
  from process_messages_trace [OF 1] obtain evs where "trace s1 = trace s @ evs" "list_all is_reply evs"
    by blast
  then have "filter is_summary (trace s1) = filter is_summary (trace s)"
    by (simp add: reply_events_not_summary)
  with 2 Some show ?thesis by (simp add: finish_channel_def Let_def)
qed

lemma walk_channels_keys:
  "walk_channels cfg w ics s = Inr s' \<Longrightarrow>
   map fst (processed_counts s') = map fst (processed_counts s)"
proof (induction ics arbitrary: s)
  case Nil
  then show ?case by simp
next
  case (Cons ic ics)
  obtain idx c where ic: "ic = (idx, c)" by (cases ic)
  with Cons.prems obtain s1 where 1: "process_channel cfg w idx c s = Inr s1"
    and 2: "walk_channels cfg w ics s1 = Inr s'"
    by (auto split: sum.splits)
  from Cons.IH [OF 2] process_channel_keys [OF 1] show ?case by simp
qed

lemma walk_channels_pacing:
  "walk_channels cfg w ics s = Inr s' \<Longrightarrow>
   filter is_pacing (trace s') = filter is_pacing (trace s) @ concat (map (pacing_of cfg w) ics)"
proof (induction ics arbitrary: s)
  case Nil
  then show ?case by simp
next
  case (Cons ic ics)
  obtain idx c where ic: "ic = (idx, c)" by (cases ic)
  with Cons.prems obtain s1 where 1: "process_channel cfg w idx c s = Inr s1"
    and 2: "walk_channels cfg w ics s1 = Inr s'"
    by (auto split: sum.splits)
  from Cons.IH [OF 2] process_channel_pacing [OF 1] ic show ?case by simp
qed

lemma walk_channels_summary:
  "walk_channels cfg w ics s = Inr s' \<Longrightarrow>
   filter is_summary (trace s') = filter is_summary (trace s)"
proof (induction ics arbitrary: s)
  case Nil
  then show ?case by simp
next
  case (Cons ic ics)
  obtain idx c where ic: "ic = (idx, c)" by (cases ic)
  with Cons.prems obtain s1 where 1: "process_channel cfg w idx c s = Inr s1"
    and 2: "walk_channels cfg w ics s1 = Inr s'"
    by (auto split: sum.splits)
  from Cons.IH [OF 2] process_channel_summary [OF 1] show ?case by simp
qed

lemma send_summary_pacing: "filter is_pacing (trace (send_summary cfg w s)) = filter is_pacing (trace s)"
  by (simp add: send_summary_def Let_def split: option.splits)

lemmas run_defs = on_ready_def initial_counts_def process_channel_def history_def finish_channel_def
  send_summary_def summary_text_def enumerate_eq_zip upt_rec [of _ "numeral _"] Let_def configuration_def

text \<open>
  Claim C4, as amended. In a run that reaches its end, the pacing events of the log are,
  channel by channel in the configured order: for a channel that is not found, the notice
  alone and no pause; for a channel that is found, the end of the channel followed by a
  pause of 60 seconds unless the channel is the last configured one.
\<close>

theorem pauses_follow_accessible_channels:
  assumes "on_ready cfg w fs0 = Inr st"
  shows "filter is_pacing (trace st) =
           concat (map (\<lambda>(idx, channel_id).
                     (case get_channel w channel_id of
                        None \<Rightarrow> [ChannelNotFound channel_id]
                      | Some ch \<Rightarrow> ProcessingComplete channel_id #
                          (if int idx < int (length (CHANNEL_IDS cfg)) - 1 then [Sleep 60] else [])))
                   (enumerate 0 (CHANNEL_IDS cfg)))"
proof -
  from assms obtain s where w: "walk_channels cfg w (enumerate 0 (CHANNEL_IDS cfg))
             \<lparr>files = fs0, processed_counts = initial_counts (CHANNEL_IDS cfg), trace = []\<rparr> = Inr s"
    and st: "st = send_summary cfg w s"
    by (auto simp: on_ready_def split: sum.splits)
  from walk_channels_pacing [OF w] st show ?thesis
    by (simp add: send_summary_pacing)
qed

theorem pauses_follow_accessible_channels_witness:
  "map_sum id (\<lambda>s. filter is_pacing (trace s))
     (on_ready (configuration None) open_world Map.empty) =
     Inr [ProcessingComplete 911164219238514688, Sleep 60,
          ProcessingComplete 911164241216667678, Sleep 60,
          ProcessingComplete 1005713269094350938, Sleep 60,
          ProcessingComplete 912017250909847623, Sleep 60,
          ProcessingComplete 912017322993139752, Sleep 60,
          ProcessingComplete 912017388042592286, Sleep 60,
          ProcessingComplete 912017417142689872, Sleep 60,
          ProcessingComplete 1218954199916871691]"
proof -
  have "\<exists>st. on_ready (configuration None) open_world Map.empty = Inr st"
    by (simp add: run_defs open_world_def silent_world_def)
  then obtain st where st: "on_ready (configuration None) open_world Map.empty = Inr st" ..
  from pauses_follow_accessible_channels [OF st] st show ?thesis
    by (simp add: open_world_def silent_world_def configuration_def enumerate_eq_zip upt_rec [of _ "numeral _"])
qed

text \<open>
  The claim as stated fails: with the first configured channel not found and the others
  found, no pause follows the first channel although it is not the last.
\<close>

theorem no_pause_after_missing_channel_counterexample:
  "map_sum id (\<lambda>s. filter is_pacing (trace s))
     (on_ready (configuration None) first_missing_world Map.empty) =
     Inr [ChannelNotFound 911164219238514688,
          ProcessingComplete 911164241216667678, Sleep 60,
          ProcessingComplete 1005713269094350938, Sleep 60,
          ProcessingComplete 912017250909847623, Sleep 60,
          ProcessingComplete 912017322993139752, Sleep 60,
          ProcessingComplete 912017388042592286, Sleep 60,
          ProcessingComplete 912017417142689872, Sleep 60,
          ProcessingComplete 1218954199916871691]"
  by (simp add: run_defs first_missing_world_def silent_world_def)

subsection \<open>Lines of text\<close>

lemma str_split_not_Nil: "str_split sep s \<noteq> []"
  by (induction s) (auto split: list.splits)

lemma str_split_no_sep: "sep \<notin> set s \<Longrightarrow> str_split sep s = [s]"
  by (induction s) auto

lemma str_split_append_sep:
  "sep \<notin> set x \<Longrightarrow> str_split sep (x @ sep # r) = x # str_split sep r"
  by (induction x) (auto split: list.splits)

lemma str_split_join:
  assumes "ls \<noteq> []" and "\<forall>l \<in> set ls. sep \<notin> set l"
  shows "str_split sep (join [sep] ls) = ls"
  using assms
proof (induction "[sep]" ls rule: join.induct)
  case 1
  then show ?case by simp
next
  case (2 x)
  then show ?case by (simp add: str_split_no_sep)
next
  case (3 x y ys)
  then show ?case by (simp add: str_split_append_sep)
qed

lemma digits_range: "c \<in> set (digits n) \<Longrightarrow> 48 \<le> c \<and> c \<le> 57"
proof (induction n arbitrary: c rule: digits.induct)
  case (1 n)
  show ?case
  proof (cases "n < 10")
    case True
    with "1.prems" show ?thesis by (simp add: digits.simps [of n])
  next
    case False
    with "1.prems" have "c \<in> set (digits (n div 10)) \<or> c = 48 + n mod 10"
      by (auto simp: digits.simps [of n])
    then show ?thesis
    proof
      assume "c \<in> set (digits (n div 10))"
      with "1.IH" False show ?thesis by simp
    next
      assume "c = 48 + n mod 10"
      moreover have "n mod 10 < 10" by simp
      ultimately show ?thesis by linarith
    qed
  qed
qed

lemma str_int_no_newline: "10 \<notin> set (str_int i)"
  using digits_range [of 10] by (auto simp: str_int_def)

lemma summary_line_no_newline: "10 \<notin> set (summary_line p)"
  by (cases p) (simp add: summary_line_def str_int_no_newline lit_def)

subsection \<open>The dictionary of counts\<close>

lemma fold_update_fresh:
  "distinct (map fst acc @ ids) \<Longrightarrow>
   fold (\<lambda>channel_id d. AList.update channel_id (0::int) d) ids acc = acc @ map (\<lambda>c. (c, 0)) ids"
proof (induction ids arbitrary: acc)
  case Nil
  then show ?case by simp
next
  case (Cons i ids)
  from Cons.prems have fresh: "i \<notin> fst ` set acc" by auto
  then have u: "AList.update i (0::int) acc = acc @ [(i, 0)]"
    by (induction acc) auto
  from Cons.prems have "distinct (map fst (acc @ [(i, 0)]) @ ids)" by auto
  from Cons.IH [OF this] u show ?case by simp
qed

lemma initial_counts_distinct:
  "distinct ids \<Longrightarrow> initial_counts ids = map (\<lambda>c. (c, 0)) ids"
  using fold_update_fresh [of "[]" ids] by (simp add: initial_counts_def)

lemma map_of_fold_update:
  "map_of (fold (\<lambda>channel_id d. AList.update channel_id (0::int) d) ids acc) c =
     (if c \<in> set ids then Some 0 else map_of acc c)"
  by (induction ids arbitrary: acc) (auto simp: update_conv')

lemma initial_counts_zero:
  "map_of (initial_counts ids) c = (if c \<in> set ids then Some 0 else None)"
  by (simp add: initial_counts_def map_of_fold_update)

lemma send_summary_events:
  assumes "get_channel w (LOG_CHANNEL_ID cfg) = Some lc"
  shows "filter is_summary (trace (send_summary cfg w s)) =
           filter is_summary (trace s) @
           [let text = (if summary_text (processed_counts s) \<noteq> [] then summary_text (processed_counts s)
                        else lit ''No messages processed.'')
            in if send w (LOG_CHANNEL_ID cfg) text then SummarySent (LOG_CHANNEL_ID cfg) text
               else SummaryFailed (LOG_CHANNEL_ID cfg) text]"
  using assms by (simp add: send_summary_def Let_def)

lemma send_summary_counts: "processed_counts (send_summary cfg w s) = processed_counts s"
  by (simp add: send_summary_def Let_def split: option.splits)

lemma join_not_Nil: "ls \<noteq> [] \<Longrightarrow> \<forall>l \<in> set ls. l \<noteq> [] \<Longrightarrow> join sep ls \<noteq> []"
  by (induction sep ls rule: join.induct) auto

lemma summary_line_not_Nil: "summary_line p \<noteq> []"
  by (cases p) (simp add: summary_line_def lit_def)

text \<open>
  Claim C9. In a run that reaches its end, with the configured channels distinct and at
  least one, and the log channel found: the summary step makes exactly one attempt to
  send one text to the log channel, the dictionary of counts has the configured channels
  as its keys in the configured order, and the lines of the text are exactly one line
  per entry, in that order, each of the form \<open>total <count> msg converted in <#id>\<close>.
  (The attempt is logged as sent or as failed, as the platform decides.)
\<close>

theorem summary_one_line_per_channel:
  assumes "on_ready cfg w fs0 = Inr st"
    and "distinct (CHANNEL_IDS cfg)" and "CHANNEL_IDS cfg \<noteq> []"
    and "get_channel w (LOG_CHANNEL_ID cfg) = Some log_channel"
  shows "\<exists>text. filter is_summary (trace st) =
                  [if send w (LOG_CHANNEL_ID cfg) text then SummarySent (LOG_CHANNEL_ID cfg) text
                   else SummaryFailed (LOG_CHANNEL_ID cfg) text] \<and>
                map fst (processed_counts st) = CHANNEL_IDS cfg \<and>
                str_split 10 text =
                  map (\<lambda>(channel_id, count).
                         lit ''total '' @ str_int count @ lit '' msg converted in <#'' @
                         str_int channel_id @ lit ''>'')
                      (processed_counts st)"
proof -
  let ?s0 = "\<lparr>files = fs0, processed_counts = initial_counts (CHANNEL_IDS cfg), trace = []\<rparr>"
  from assms(1) obtain s where wk: "walk_channels cfg w (enumerate 0 (CHANNEL_IDS cfg)) ?s0 = Inr s"
    and st: "st = send_summary cfg w s"
    by (auto simp: on_ready_def split: sum.splits)
  from walk_channels_keys [OF wk] assms(2)
  have keys: "map fst (processed_counts s) = CHANNEL_IDS cfg"
    by (simp add: initial_counts_distinct comp_def)
  from walk_channels_summary [OF wk] have none: "filter is_summary (trace s) = []" by simp
  let ?ls = "map summary_line (processed_counts s)"
  let ?text = "summary_text (processed_counts s)"
  from keys assms(3) have ne: "?ls \<noteq> []" by auto
  have nl: "\<forall>l \<in> set ?ls. 10 \<notin> set l" by (auto simp: summary_line_no_newline)
  from ne have text_ne: "?text \<noteq> []"
    unfolding summary_text_def by (rule join_not_Nil) (auto simp: summary_line_not_Nil)
  have lines: "str_split 10 ?text = ?ls"
    unfolding summary_text_def using ne nl by (rule str_split_join)
  have form: "?ls = map (\<lambda>(channel_id, count).
                         lit ''total '' @ str_int count @ lit '' msg converted in <#'' @
                         str_int channel_id @ lit ''>'') (processed_counts s)"
    by (simp add: summary_line_def fun_eq_iff)
  from send_summary_events [OF assms(4), of s] none text_ne st
  have ev: "filter is_summary (trace st) =
          [if send w (LOG_CHANNEL_ID cfg) ?text then SummarySent (LOG_CHANNEL_ID cfg) ?text
           else SummaryFailed (LOG_CHANNEL_ID cfg) ?text]"
    by (simp add: Let_def)
  from ev keys lines form st show ?thesis
    by (auto simp: send_summary_counts simp del: map_eq_conv)
qed

theorem summary_one_line_per_channel_witness:
  "(\<exists>text. map_sum id (\<lambda>s. filter is_summary (trace s))
             (on_ready (configuration None) announcing_world Map.empty) =
             Inr [SummarySent 1056057016235348039 text] \<and>
           str_split 10 text =
             [lit ''total 0 msg converted in <#911164219238514688>'',
              lit ''total 0 msg converted in <#911164241216667678>'',
              lit ''total 0 msg converted in <#1005713269094350938>'',
              lit ''total 0 msg converted in <#912017250909847623>'',
              lit ''total 0 msg converted in <#912017322993139752>'',
              lit ''total 0 msg converted in <#912017388042592286>'',
              lit ''total 0 msg converted in <#912017417142689872>'',
              lit ''total 0 msg converted in <#1218954199916871691>'']) \<and>
   summary_text [(911164219238514688, 2), (911164241216667678, 0)] =
     lit ''total 2 msg converted in <#911164219238514688>'' @ [10] @
     lit ''total 0 msg converted in <#911164241216667678>''"
proof -
  let ?cfg = "configuration None"
  have "\<exists>st. on_ready ?cfg announcing_world Map.empty = Inr st \<and>
          processed_counts st = map (\<lambda>c. (c, 0)) (CHANNEL_IDS ?cfg)"
    by (simp add: run_defs announcing_world_def open_world_def silent_world_def)
  then obtain st where st: "on_ready ?cfg announcing_world Map.empty = Inr st"
    and counts: "processed_counts st = map (\<lambda>c. (c, 0)) (CHANNEL_IDS ?cfg)" by blast
  have d: "distinct (CHANNEL_IDS ?cfg)" and ne: "CHANNEL_IDS ?cfg \<noteq> []"
    by (simp_all add: configuration_def)
  have lg: "get_channel announcing_world (LOG_CHANNEL_ID ?cfg) = Some \<lparr>messages = [], readable = True\<rparr>"
    by (simp add: announcing_world_def open_world_def silent_world_def)
  from summary_one_line_per_channel [OF st d ne lg] obtain body where
    ev: "filter is_summary (trace st) =
           [if send announcing_world (LOG_CHANNEL_ID ?cfg) body then SummarySent (LOG_CHANNEL_ID ?cfg) body
            else SummaryFailed (LOG_CHANNEL_ID ?cfg) body]"
    and ln: "str_split 10 body =
                  map (\<lambda>(channel_id, count).
                         lit ''total '' @ str_int count @ lit '' msg converted in <#'' @
                         str_int channel_id @ lit ''>'')
                      (processed_counts st)" by blast
  from ev have 1: "filter is_summary (trace st) = [SummarySent 1056057016235348039 body]"
    by (simp add: announcing_world_def open_world_def silent_world_def configuration_def)
  from ln counts have 2: "str_split 10 body =
             [lit ''total 0 msg converted in <#911164219238514688>'',
              lit ''total 0 msg converted in <#911164241216667678>'',
              lit ''total 0 msg converted in <#1005713269094350938>'',
              lit ''total 0 msg converted in <#912017250909847623>'',
              lit ''total 0 msg converted in <#912017322993139752>'',
              lit ''total 0 msg converted in <#912017388042592286>'',
              lit ''total 0 msg converted in <#912017417142689872>'',
              lit ''total 0 msg converted in <#1218954199916871691>'']"
    by (simp add: configuration_def str_int_def digits.simps lit_def)
  have 3: "summary_text [(911164219238514688, 2), (911164241216667678, 0)] =
     lit ''total 2 msg converted in <#911164219238514688>'' @ [10] @
     lit ''total 0 msg converted in <#911164241216667678>''"
    by (simp add: summary_text_def summary_line_def str_int_def digits.simps lit_def)
  from st 1 2 3 show ?thesis by auto
qed

subsection \<open>Evaluating the examples\<close>

lemma get_platform_youtu_be: "get_platform (lit ''https://youtu.be/a'') = lit ''youtube''"
  by (simp add: get_platform_def lit_def)

lemma download_video_example:
  assumes "extract_info w = extract_info (video_world n)" and "download w = download (video_world n)"
  shows "download_video w url fs = ((lit ''u t.mp4'', lit ''u''), fs(lit ''u t.mp4'' \<mapsto> n))"
  by (simp add: download_video_def assms video_world_def silent_world_def or_else_def
        sanitize_filename_def strip_def unsafe_chars_def is_space_def lit_def Let_def)


lemma findall_urls_example:
  "findall_urls (lit ''https://youtu.be/a https://youtu.be/b'') =
     [lit ''https://youtu.be/a'', lit ''https://youtu.be/b'']"
  by (simp add: match_url_def lit_def is_space_def)

lemma get_platform_examples:
  "get_platform (lit ''https://youtu.be/a'') \<noteq> lit ''unknown''"
  "get_platform (lit ''https://youtu.be/b'') \<noteq> lit ''unknown''"
  by (simp_all add: get_platform_def lit_def)

subsection \<open>The files of one URL\<close>

lemma clean_up_removes:
  "clean_up video_file video_path fs video_file = None \<and>
   clean_up video_file video_path fs video_path = None \<and>
   (\<forall>p. p \<noteq> video_file \<longrightarrow> p \<noteq> video_path \<longrightarrow> clean_up video_file video_path fs p = fs p)"
  by (cases "fs video_file"; cases "fs video_path") (auto simp: clean_up_def Let_def)

text \<open>
  Claim C3, as amended. After processing a URL of a known platform whose download
  succeeded and whose size probe did not raise, whether the compression and the reply
  failed or succeeded, neither the downloaded file nor the file at the path that
  \<open>compress_video\<close> returned is on disk, and every other path is as the download and
  the compression left it.
\<close>

theorem cleanup_removes_tracked_files:
  assumes "get_platform url \<noteq> lit ''unknown''"
    and "download_video w url (files s) = ((video_file, uploader), fs1)"
    and "video_file \<noteq> []"
    and "sized_video_path cfg w video_file fs1 = Inr (video_path, fs2)"
  shows "\<exists>s'. process_url cfg w channel_id msg url s = Inr s' \<and>
           files s' video_file = None \<and> files s' video_path = None \<and>
           (\<forall>p. p \<noteq> video_file \<longrightarrow> p \<noteq> video_path \<longrightarrow> files s' p = fs2 p)"
  using assms clean_up_removes [of video_file video_path fs2]
  by (simp add: process_url_def Let_def reply_step_files)

theorem cleanup_removes_tracked_files_witness:
  "map_sum id (\<lambda>s. (files s (lit ''u t.mp4''), files s (lit ''compressed_u t.mp4'')))
     (process_url (configuration None) (video_world 9000000) 911164219238514688
        (example_message 4 2 3000001 (lit ''https://youtu.be/a'')) (lit ''https://youtu.be/a'') start_state)
   = Inr (None, None)"
proof -
  have p: "get_platform (lit ''https://youtu.be/a'') \<noteq> lit ''unknown''"
    by (simp add: get_platform_youtu_be) (simp add: lit_def)
  have d: "download_video (video_world 9000000) (lit ''https://youtu.be/a'') (files start_state) =
             ((lit ''u t.mp4'', lit ''u''), [lit ''u t.mp4'' \<mapsto> 9000000])"
    by (simp add: download_video_example [of _ 9000000] start_state_def)
  have n: "lit ''u t.mp4'' \<noteq> []" by (simp add: lit_def)
  have s: "sized_video_path (configuration None) (video_world 9000000) (lit ''u t.mp4'') [lit ''u t.mp4'' \<mapsto> 9000000]
      = Inr (lit ''compressed_u t.mp4'', [lit ''u t.mp4'' \<mapsto> 9000000, lit ''compressed_u t.mp4'' \<mapsto> 8000000])"
    by (simp add: sized_video_path_def compress_video_def configuration_def
          video_world_def silent_world_def Let_def lit_def)
  from cleanup_removes_tracked_files [OF p d n s, of 911164219238514688
         "example_message 4 2 3000001 (lit ''https://youtu.be/a'')"]
  show ?thesis by auto
qed

text \<open>
  The claim as stated fails: when the encoder raises after it has written part of its
  output, \<open>compress_video\<close> returns the original path, so the clean-up removes the
  downloaded file only and the partial file \<open>compressed_<original>\<close> stays on disk.
\<close>

theorem partial_output_survives_counterexample:
  "map_sum id (\<lambda>s. (files s (lit ''u t.mp4''), files s (lit ''compressed_u t.mp4'')))
     (process_url (configuration None) leaky_world 911164219238514688
        (example_message 4 2 3000001 (lit ''https://youtu.be/a'')) (lit ''https://youtu.be/a'') start_state)
   = Inr (None, Some 1000)"
proof -
  have p: "get_platform (lit ''https://youtu.be/a'') \<noteq> lit ''unknown''"
    by (simp add: get_platform_youtu_be) (simp add: lit_def)
  have s: "sized_video_path (configuration None) leaky_world (lit ''u t.mp4'') [lit ''u t.mp4'' \<mapsto> 9000000]
      = Inr (lit ''u t.mp4'', [lit ''u t.mp4'' \<mapsto> 9000000, lit ''compressed_u t.mp4'' \<mapsto> 1000])"
    by (simp add: sized_video_path_def compress_video_def configuration_def leaky_world_def
          video_world_def silent_world_def Let_def lit_def)
  show ?thesis
    using p s
    by (simp add: process_url_def download_video_example [of _ 9000000] leaky_world_def start_state_def
          reply_step_files clean_up_def Let_def)
      (simp add: lit_def)
qed

subsection \<open>When the run reaches the summary\<close>












subsection \<open>The counts\<close>

text \<open>
  Claim C1 says that a message adds exactly one to its channel's count, however many
  platform URLs it contains. The increment of line 144 is inside the loop over the URLs:
  in a run over one message with two YouTube links, both replied to, the count of the
  channel is 2 and the summary line reads \<open>total 2 msg converted\<close>.
\<close>

theorem two_links_counted_twice:
  "map_sum id (\<lambda>s. (map_of (processed_counts s) 911164219238514688, filter is_reply (trace s),
                      map summary_line (take 1 (processed_counts s))))
     (on_ready (configuration None) busy_world Map.empty) =
   Inr (Some 2,
        [Replied 10 (lit ''sent on 01-Jan-26 by user'') (lit ''u t.mp4''),
         Replied 10 (lit ''sent on 01-Jan-26 by user'') (lit ''u t.mp4'')],
        [lit ''total 2 msg converted in <#911164219238514688>''])"
proof -
  have g: "get_channel busy_world = (\<lambda>c. if c = 911164219238514688 then Some busy_channel
                                             else if c = 1056057016235348039 then Some \<lparr>messages = [], readable = True\<rparr>
                                             else None)"
    "client_user busy_world = 1" "default_limit busy_world = Some 100" "now busy_world = (\<lambda>i. 0)"
    "strftime busy_world = (\<lambda>t. lit ''01-Jan-26'')" "reply busy_world = (\<lambda>m t p. True)"
    "send busy_world = (\<lambda>c t. True)"
    by (simp_all add: busy_world_def video_world_def silent_world_def)
  have d: "download_video busy_world url fs = ((lit ''u t.mp4'', lit ''u''), fs(lit ''u t.mp4'' \<mapsto> 1000))" for url fs
    by (simp add: download_video_example [of _ 1000] busy_world_def)
  have n: "lit ''u t.mp4'' \<noteq> []" by (simp add: lit_def)
  have l: "summary_line (911164219238514688, 2) = lit ''total 2 msg converted in <#911164219238514688>''"
    by (simp add: summary_line_def str_int_def digits.simps lit_def)
  have t: "lit ''sent on '' @ lit ''01-Jan-26'' @ lit '' by '' @ lit ''user'' = lit ''sent on 01-Jan-26 by user''"
    by (simp add: lit_def)
  show ?thesis
    by (simp add: run_defs g busy_channel_def example_message_def resume_cursor_def
          process_message_def findall_urls_example process_url_def get_platform_examples d n
          sized_video_path_def reply_step_def clean_up_def l t)
qed

end
